theory Spec2Isabelle
  imports Complex_Main
begin

section \<open>Shared data model\<close>

text \<open>
  The arrays of the program hold float64 numbers. The model does not fix their
  arithmetic: the operations that the code applies to coordinates are the fields of a
  record, and every function that computes with coordinates takes that record. A theorem
  stated for every such record holds for float64 as for exact arithmetic. The field
  \<open>f_lit\<close> gives the number of the arithmetic for a literal or an integer of the code.
  \<open>exact_arithmetic\<close> is the instance over the reals. Exceptions raised by Python or
  numpy are values of the type \<open>error\<close>, returned on the left of a sum.
\<close>

datatype error = IndexError | ValueError | ZeroDivisionError | LinAlgError

record 'f arithmetic =
  f_add :: "'f \<Rightarrow> 'f \<Rightarrow> 'f"
  f_sub :: "'f \<Rightarrow> 'f \<Rightarrow> 'f"
  f_mul :: "'f \<Rightarrow> 'f \<Rightarrow> 'f"
  f_div :: "'f \<Rightarrow> 'f \<Rightarrow> 'f"
  f_neg :: "'f \<Rightarrow> 'f"
  f_abs :: "'f \<Rightarrow> 'f"
  f_sqrt :: "'f \<Rightarrow> 'f"
  f_less :: "'f \<Rightarrow> 'f \<Rightarrow> bool"
  f_lit :: "real \<Rightarrow> 'f"

definition exact_arithmetic :: "real arithmetic" where
  "exact_arithmetic =
     \<lparr>f_add = (+), f_sub = (-), f_mul = (*), f_div = (/), f_neg = uminus, f_abs = abs,
      f_sqrt = sqrt, f_less = (<), f_lit = (\<lambda>x. x)\<rparr>"

type_synonym 'f vec = "'f \<times> 'f \<times> 'f"

definition ebind :: "error + 'a \<Rightarrow> ('a \<Rightarrow> error + 'b) \<Rightarrow> error + 'b" where
  "ebind r f = (case r of Inl e \<Rightarrow> Inl e | Inr x \<Rightarrow> f x)"

section \<open>Python sequence primitives\<close>

text \<open>
  A slice bound of Python is clipped into the range of the sequence; a negative bound
  counts from the end.
\<close>

definition clip :: "nat \<Rightarrow> int \<Rightarrow> nat" where
  "clip n i = (if i < 0 then nat (max 0 (int n + i)) else min n (nat i))"

definition slice :: "'a list \<Rightarrow> int \<Rightarrow> int \<Rightarrow> 'a list" where
  "slice xs a b = take (clip (length xs) b - clip (length xs) a) (drop (clip (length xs) a) xs)"

definition slice_from :: "'a list \<Rightarrow> int \<Rightarrow> 'a list" where
  "slice_from xs a = drop (clip (length xs) a) xs"

section \<open>Steric clash detector (\<open>_fallback.py\<close>)\<close>

definition vsub :: "'f arithmetic \<Rightarrow> 'f vec \<Rightarrow> 'f vec \<Rightarrow> 'f vec" where
  "vsub ar v w =
     (case v of (a, b, c) \<Rightarrow> case w of (x, y, z) \<Rightarrow> (f_sub ar a x, f_sub ar b y, f_sub ar c z))"

definition norm_of :: "'f arithmetic \<Rightarrow> 'f vec \<Rightarrow> 'f" where
  "norm_of ar v =
     (case v of (a, b, c) \<Rightarrow>
        f_sqrt ar (f_add ar (f_add ar (f_mul ar a a) (f_mul ar b b)) (f_mul ar c c)))"

text \<open>
  The two nested \<open>for\<close> loops over a pair of fragments, with the running counter
  \<open>clashes\<close> threaded through. \<open>None\<close> is the early \<open>return False\<close>.
\<close>

fun inner_loop ::
  "'f arithmetic \<Rightarrow> 'f \<Rightarrow> int \<Rightarrow> 'f vec \<Rightarrow> 'f vec list \<Rightarrow> int \<Rightarrow> int option"
where
  "inner_loop ar thresh max_clashes v1 [] clashes = Some clashes"
| "inner_loop ar thresh max_clashes v1 (v2 # m2) clashes =
     (let dist = norm_of ar (vsub ar v1 v2);
          clashes' = (if f_less ar dist thresh then clashes + 1 else clashes)
      in if clashes' > max_clashes then None
         else inner_loop ar thresh max_clashes v1 m2 clashes')"

fun pair_loop ::
  "'f arithmetic \<Rightarrow> 'f \<Rightarrow> int \<Rightarrow> 'f vec list \<Rightarrow> 'f vec list \<Rightarrow> int \<Rightarrow> int option"
where
  "pair_loop ar thresh max_clashes [] m2 clashes = Some clashes"
| "pair_loop ar thresh max_clashes (v1 # m1) m2 clashes =
     (case inner_loop ar thresh max_clashes v1 m2 clashes of
        None \<Rightarrow> None
      | Some clashes' \<Rightarrow> pair_loop ar thresh max_clashes m1 m2 clashes')"

definition compenetration_check ::
  "'f arithmetic \<Rightarrow> 'f vec list \<Rightarrow> int list \<Rightarrow> 'f \<Rightarrow> int \<Rightarrow> error + bool"
where
  "compenetration_check ar coords ids thresh max_clashes =
     (if length ids = 2 then
        (let m1 = slice coords 0 (ids ! 0);
             m2 = slice_from coords (ids ! 0)
         in case pair_loop ar thresh max_clashes m1 m2 0 of
              None \<Rightarrow> Inr False
            | Some _ \<Rightarrow> Inr True)
      else
        (case ids of
           i0 # i1 # _ \<Rightarrow>
             (let m1 = slice coords 0 i0;
                  m2 = slice coords i0 (i0 + i1);
                  m3 = slice_from coords (i0 + i1)
              in case pair_loop ar thresh max_clashes m1 m2 0 of
                   None \<Rightarrow> Inr False
                 | Some c1 \<Rightarrow>
                     (case pair_loop ar thresh max_clashes m2 m3 c1 of
                        None \<Rightarrow> Inr False
                      | Some c2 \<Rightarrow>
                          (case pair_loop ar thresh max_clashes m3 m1 c2 of
                             None \<Rightarrow> Inr False
                           | Some _ \<Rightarrow> Inr True)))
         | _ \<Rightarrow> Inl IndexError))"

text \<open>
  The reference count of the specification. The fragment of an atom is read off the
  atom counts. A clash is a pair of atoms \<open>i < j\<close> of different fragments whose distance
  is below the threshold: \<open>clash_pairs\<close> takes the distance as the code computes it in the
  given arithmetic, \<open>euclidean_clash_pairs\<close> takes the Euclidean distance of the two
  points, written out independently of the code.
\<close>

fun fragment_of :: "nat list \<Rightarrow> nat \<Rightarrow> nat" where
  "fragment_of [] i = 0"
| "fragment_of (n # ns) i = (if i < n then 0 else Suc (fragment_of ns (i - n)))"

definition clash_pairs ::
  "'f arithmetic \<Rightarrow> 'f vec list \<Rightarrow> nat list \<Rightarrow> 'f \<Rightarrow> (nat \<times> nat) list"
where
  "clash_pairs ar coords counts thresh =
     filter (\<lambda>(i, j). i < j \<and> fragment_of counts i \<noteq> fragment_of counts j
                      \<and> f_less ar (norm_of ar (vsub ar (coords ! i) (coords ! j))) thresh)
       (List.product [0..<length coords] [0..<length coords])"

definition euclidean_distance :: "real vec \<Rightarrow> real vec \<Rightarrow> real" where
  "euclidean_distance p q =
     sqrt ((fst p - fst q)\<^sup>2 + (fst (snd p) - fst (snd q))\<^sup>2 + (snd (snd p) - snd (snd q))\<^sup>2)"

definition euclidean_clash_pairs ::
  "real vec list \<Rightarrow> nat list \<Rightarrow> real \<Rightarrow> (nat \<times> nat) list"
where
  "euclidean_clash_pairs coords counts thresh =
     filter (\<lambda>(i, j). i < j \<and> fragment_of counts i \<noteq> fragment_of counts j
                      \<and> euclidean_distance (coords ! i) (coords ! j) < thresh)
       (List.product [0..<length coords] [0..<length coords])"

text \<open>
  The number of pairs of two fragments below the threshold, which the loops count, and
  the same count over index lists.
\<close>

definition close_count :: "'f arithmetic \<Rightarrow> 'f \<Rightarrow> 'f vec list \<Rightarrow> 'f vec list \<Rightarrow> nat" where
  "close_count ar thresh m1 m2 =
     length (filter (\<lambda>(v1, v2). f_less ar (norm_of ar (vsub ar v1 v2)) thresh)
       (List.product m1 m2))"

definition pairs_count :: "(nat \<Rightarrow> nat \<Rightarrow> bool) \<Rightarrow> nat list \<Rightarrow> nat list \<Rightarrow> nat" where
  "pairs_count P A B = length (filter (\<lambda>(i, j). P i j) (List.product A B))"

section \<open>Ensemble deduplication (\<open>_fallback.py\<close>)\<close>

text \<open>
  \<open>scramble\<close> and \<open>scramble_mask\<close> read \<open>array[s]\<close> for every \<open>s\<close> of the sequence: an
  index beyond the array raises IndexError. The indices come from a permutation of
  \<open>arange\<close>, so they are natural numbers.
\<close>

definition scramble_mask :: "bool list \<Rightarrow> nat list \<Rightarrow> error + bool list" where
  "scramble_mask array sequence =
     (if list_all (\<lambda>s. s < length array) sequence
      then Inr (map (\<lambda>s. array ! s) sequence) else Inl IndexError)"

definition scramble :: "'a list \<Rightarrow> nat list \<Rightarrow> error + 'a list" where
  "scramble array sequence =
     (if list_all (\<lambda>s. s < length array) sequence
      then Inr (map (\<lambda>s. array ! s) sequence) else Inl IndexError)"

text \<open>
  \<open>np.where(sequence == i)[0][0]\<close>: the first position of \<open>i\<close> in the sequence, and
  IndexError when there is none.
\<close>

fun first_index :: "nat list \<Rightarrow> nat \<Rightarrow> nat option" where
  "first_index [] i = None"
| "first_index (s # ss) i = (if s = i then Some 0 else map_option Suc (first_index ss i))"

definition inv_sequence_of :: "nat list \<Rightarrow> nat list \<Rightarrow> error + nat list" where
  "inv_sequence_of sequence r =
     (if list_all (\<lambda>i. first_index sequence i \<noteq> None) r
      then Inr (map (\<lambda>i. the (first_index sequence i)) r) else Inl IndexError)"

text \<open>
  \<open>np.random.permutation(r)\<close> returns some arrangement of \<open>0, \<dots>, n - 1\<close>. The model takes
  the drawn sequence as an argument; this predicate says what the library promises of it.
\<close>

definition is_permutation :: "nat list \<Rightarrow> nat \<Rightarrow> bool" where
  "is_permutation sequence n \<longleftrightarrow>
     length sequence = n \<and> distinct sequence \<and> list_all (\<lambda>s. s < n) sequence"

text \<open>
  The comparison loops of one shard. The inner loop writes \<open>rmsd_mat[i, j]\<close> and leaves
  the row at the first value below \<open>max_rmsd\<close> (the \<open>break\<close>). The metric
  \<open>kabsch_rmsd\<close> is a library function and a parameter here; its values are only
  stored and compared.
\<close>

fun row_scan ::
  "('a \<Rightarrow> 'a \<Rightarrow> real) \<Rightarrow> real \<Rightarrow> 'a list \<Rightarrow> nat \<Rightarrow> nat list \<Rightarrow> real list list \<Rightarrow> real list list"
where
  "row_scan kabsch_rmsd max_rmsd ss i [] rmsd_mat = rmsd_mat"
| "row_scan kabsch_rmsd max_rmsd ss i (j # js) rmsd_mat =
     (let val = kabsch_rmsd (ss ! i) (ss ! j);
          rmsd_mat' = rmsd_mat[i := (rmsd_mat ! i)[j := val]]
      in if val < max_rmsd then rmsd_mat'
         else row_scan kabsch_rmsd max_rmsd ss i js rmsd_mat')"

definition rmsd_matrix :: "('a \<Rightarrow> 'a \<Rightarrow> real) \<Rightarrow> real \<Rightarrow> 'a list \<Rightarrow> real list list" where
  "rmsd_matrix kabsch_rmsd max_rmsd ss =
     foldl (\<lambda>rmsd_mat i. row_scan kabsch_rmsd max_rmsd ss i [i + 1..<length ss] rmsd_mat)
       (replicate (length ss) (replicate (length ss) max_rmsd)) [0..<length ss]"

text \<open>\<open>np.where(rmsd_mat < max_rmsd)\<close> lists the index pairs row by row.\<close>

definition matches_of :: "real list list \<Rightarrow> real \<Rightarrow> (nat \<times> nat) list" where
  "matches_of rmsd_mat max_rmsd =
     filter (\<lambda>(i, j). rmsd_mat ! i ! j < max_rmsd)
       (List.product [0..<length rmsd_mat] [0..<length rmsd_mat])"

text \<open>
  \<open>nx.Graph(matches)\<close> keeps its nodes in the order in which the edges first name them.
  \<open>nx.connected_components\<close> visits the nodes in that order and yields the set of nodes
  reachable from each node not seen before. A group is \<open>tuple(g.subgraph(c).nodes)\<close>:
  the nodes of the component \<open>c\<close> in the order in which the node view of the subgraph
  iterates. networkx iterates either the nodes of the graph or the Python set \<open>c\<close>, so
  that order is a matter of the library and of the hash table of the set; the model
  takes it as the parameter \<open>tuple_nodes\<close>, a function of the edges and of the
  component, of which \<open>lists_nodes\<close> says that it lists the nodes of the component.
\<close>

definition add_node :: "nat list \<Rightarrow> nat \<Rightarrow> nat list" where
  "add_node ns v = (if v \<in> set ns then ns else ns @ [v])"

definition graph_nodes :: "(nat \<times> nat) list \<Rightarrow> nat list" where
  "graph_nodes es = foldl (\<lambda>ns (a, b). add_node (add_node ns a) b) [] es"

definition reachable :: "(nat \<times> nat) list \<Rightarrow> nat \<Rightarrow> nat \<Rightarrow> bool" where
  "reachable es v u \<longleftrightarrow> v = u \<or> (v, u) \<in> (set es \<union> set (map prod.swap es))\<^sup>+"

fun connected_components ::
  "(nat \<times> nat) list \<Rightarrow> nat list \<Rightarrow> nat list \<Rightarrow> nat list \<Rightarrow> nat list list"
where
  "connected_components es ns [] seen = []"
| "connected_components es ns (v # vs) seen =
     (if v \<in> set seen then connected_components es ns vs seen
      else (let c = filter (reachable es v) ns
            in c # connected_components es ns vs (seen @ c)))"


definition groups_of ::
  "((nat \<times> nat) list \<Rightarrow> nat list \<Rightarrow> nat list) \<Rightarrow> (nat \<times> nat) list \<Rightarrow> nat list list"
where
  "groups_of tuple_nodes matches =
     map (tuple_nodes matches)
       (connected_components matches (graph_nodes matches) (graph_nodes matches) [])"

definition rejects_of :: "nat list list \<Rightarrow> nat list" where
  "rejects_of groups = concat (map (\<lambda>group. filter (\<lambda>i. i \<noteq> hd group) group) groups)"

definition shard_mask ::
  "((nat \<times> nat) list \<Rightarrow> nat list \<Rightarrow> nat list) \<Rightarrow> ('a \<Rightarrow> 'a \<Rightarrow> real) \<Rightarrow> real \<Rightarrow> 'a list
   \<Rightarrow> bool list"
where
  "shard_mask tuple_nodes kabsch_rmsd max_rmsd structures_subset =
     (let rmsd_mat = rmsd_matrix kabsch_rmsd max_rmsd structures_subset;
          matches = matches_of rmsd_mat max_rmsd;
          rejects = rejects_of (groups_of tuple_nodes matches)
      in foldl (\<lambda>keep i. keep[i := False])
           (replicate (length structures_subset) True) rejects)"

text \<open>
  The split into \<open>k\<close> shards of \<open>d = len(structures) // k\<close> structures, the last one
  taking the rest, and the concatenation of the masks of the shards. \<open>len(structures) // 0\<close>
  raises ZeroDivisionError; for a negative \<open>k\<close> the loop does not run and
  \<open>np.concatenate\<close> of no array raises ValueError.
\<close>

definition shards :: "'a list \<Rightarrow> nat \<Rightarrow> 'a list list" where
  "shards structures k =
     (let d = length structures div k
      in map (\<lambda>step. if step = k - 1 then slice_from structures (int (d * step))
                      else slice structures (int (d * step)) (int (d * (step + 1))))
           [0..<k])"

definition prune_shards ::
  "((nat \<times> nat) list \<Rightarrow> nat list \<Rightarrow> nat list) \<Rightarrow> ('a \<Rightarrow> 'a \<Rightarrow> real) \<Rightarrow> 'a list \<Rightarrow> int \<Rightarrow> real
   \<Rightarrow> error + bool list"
where
  "prune_shards tuple_nodes kabsch_rmsd structures k max_rmsd =
     (if k = 0 then Inl ZeroDivisionError
      else if k < 0 then Inl ValueError
      else Inr (concat (map (shard_mask tuple_nodes kabsch_rmsd max_rmsd)
                  (shards structures (nat k)))))"

text \<open>\<open>structures[mask]\<close>: numpy refuses a boolean mask of another length.\<close>

definition select_mask :: "'a list \<Rightarrow> bool list \<Rightarrow> error + 'a list" where
  "select_mask structures keep =
     (if length keep = length structures
      then Inr (map fst (filter snd (zip structures keep))) else Inl IndexError)"

text \<open>
  With \<open>k \<noteq> 1\<close> the mask that is returned is \<open>np.array\<close> of a Python list. For an empty
  ensemble that list is empty and the array has the type float64, which numpy refuses
  as an index: \<open>structures[mask]\<close> raises IndexError.
\<close>

definition prune_conformers ::
  "((nat \<times> nat) list \<Rightarrow> nat list \<Rightarrow> nat list) \<Rightarrow> ('a \<Rightarrow> 'a \<Rightarrow> real) \<Rightarrow> nat list \<Rightarrow> 'a list
   \<Rightarrow> int \<Rightarrow> real \<Rightarrow> error + ('a list \<times> bool list)"
where
  "prune_conformers tuple_nodes kabsch_rmsd sequence structures k max_rmsd =
     (if k \<noteq> 1 then
        ebind (inv_sequence_of sequence [0..<length structures]) (\<lambda>inv_sequence.
        ebind (scramble structures sequence) (\<lambda>shuffled.
        ebind (prune_shards tuple_nodes kabsch_rmsd shuffled k max_rmsd) (\<lambda>mask_out.
        ebind (scramble_mask mask_out inv_sequence) (\<lambda>keep.
        ebind (scramble shuffled inv_sequence) (\<lambda>restored.
        if inv_sequence = [] then Inl IndexError
        else ebind (select_mask restored keep) (\<lambda>subset. Inr (subset, keep)))))))
      else
        ebind (prune_shards tuple_nodes kabsch_rmsd structures k max_rmsd) (\<lambda>keep.
        ebind (select_mask structures keep) (\<lambda>subset. Inr (subset, keep))))"


section \<open>Cube file body (\<open>rdkit_Class.py\<close>)\<close>

text \<open>
  The density grid \<open>self.box\<close> is a three-dimensional array: its shape and its cells.
  \<open>print_list\<close> is a list of strings; a token stands for the formatted value
  \<open>'{:.5e} '.format(v).upper()\<close> of a cell or for the string \<open>'\n'\<close>. The cells are only
  read and written out.
\<close>

record 'v grid =
  shape :: "nat \<times> nat \<times> nat"
  cell :: "nat \<Rightarrow> nat \<Rightarrow> nat \<Rightarrow> 'v"

datatype 'v token = Value 'v | Newline

definition cube_step :: "'v \<Rightarrow> nat \<times> 'v token list \<Rightarrow> nat \<times> 'v token list" where
  "cube_step v st =
     (case st of (count, print_list) \<Rightarrow>
        (let print_list' = print_list @ [Value v];
             count' = count + 1
         in if count' mod 6 = 5 then (count', print_list' @ [Newline])
            else (count', print_list')))"

definition cube_body :: "'v grid \<Rightarrow> 'v token list" where
  "cube_body box =
     (case shape box of (sx, sy, sz) \<Rightarrow>
        snd (foldl (\<lambda>st x.
               foldl (\<lambda>st y.
                 foldl (\<lambda>st z. cube_step (cell box x y z) st) st [0..<sz]) st [0..<sy])
             (0, []) [0..<sx]) @ [Newline])"

text \<open>The lines of the body: the values between two newlines.\<close>

fun lines_of :: "'v token list \<Rightarrow> 'v list \<Rightarrow> 'v list list" where
  "lines_of [] cur = (if cur = [] then [] else [cur])"
| "lines_of (Value v # ts) cur = lines_of ts (cur @ [v])"
| "lines_of (Newline # ts) cur = cur # lines_of ts []"

section \<open>RMSD metric (\<open>_fallback.py\<close>)\<close>

text \<open>
  The point sets are arrays of shape \<open>(N, 3)\<close>. Three functions of numpy are parameters:
  \<open>np_mean\<close> is \<open>np.mean(\<sqdot>, axis=0)\<close>, \<open>np_dot\<close> is the sum of products that the matrix
  product takes of a row and a column, and \<open>lambda_max_eig\<close> is
  \<open>np.max(np.linalg.eig(\<sqdot>)[0])\<close>, which may raise. The matrix product \<open>X.T @ Y\<close> of numpy
  raises ValueError unless \<open>X\<close> and \<open>Y\<close> have the same number of rows.
\<close>

definition component :: "nat \<Rightarrow> 'f vec \<Rightarrow> 'f" where
  "component k v = (case v of (a, b, c) \<Rightarrow> if k = 0 then a else if k = 1 then b else c)"

definition matmul_T ::
  "('f list \<Rightarrow> 'f list \<Rightarrow> 'f) \<Rightarrow> 'f vec list \<Rightarrow> 'f vec list \<Rightarrow> error + 'f list list"
where
  "matmul_T np_dot X Y =
     (if length X \<noteq> length Y then Inl ValueError
      else Inr (map (\<lambda>r. map (\<lambda>c. np_dot (map (component r) X) (map (component c) Y))
                  [0, 1, 2]) [0, 1, 2]))"

definition M_mtx ::
  "('f list \<Rightarrow> 'f list \<Rightarrow> 'f) \<Rightarrow> 'f vec list \<Rightarrow> 'f vec list \<Rightarrow> error + 'f list list"
where
  "M_mtx np_dot A B = matmul_T np_dot B A"

definition trace :: "'f arithmetic \<Rightarrow> 'f list list \<Rightarrow> 'f" where
  "trace ar X = f_add ar (f_add ar (X ! 0 ! 0) (X ! 1 ! 1)) (X ! 2 ! 2)"

definition K_mtx :: "'f arithmetic \<Rightarrow> 'f list list \<Rightarrow> 'f list list" where
  "K_mtx ar M =
     (let S_xx = M ! 0 ! 0; S_xy = M ! 0 ! 1; S_xz = M ! 0 ! 2;
          S_yx = M ! 1 ! 0; S_yy = M ! 1 ! 1; S_yz = M ! 1 ! 2;
          S_zx = M ! 2 ! 0; S_zy = M ! 2 ! 1; S_zz = M ! 2 ! 2;
          S_xx_yy_zz_ppp = f_add ar (f_add ar S_xx S_yy) S_zz;
          S_yz_zy_pm = f_sub ar S_yz S_zy;
          S_zx_xz_pm = f_sub ar S_zx S_xz;
          S_xy_yx_pm = f_sub ar S_xy S_yx;
          S_xx_yy_zz_pmm = f_sub ar (f_sub ar S_xx S_yy) S_zz;
          S_xy_yx_pp = f_add ar S_xy S_yx;
          S_zx_xz_pp = f_add ar S_zx S_xz;
          S_xx_yy_zz_mpm = f_sub ar (f_add ar (f_neg ar S_xx) S_yy) S_zz;
          S_yz_zy_pp = f_add ar S_yz S_zy;
          S_xx_yy_zz_mmp = f_add ar (f_sub ar (f_neg ar S_xx) S_yy) S_zz
      in [[S_xx_yy_zz_ppp, S_yz_zy_pm, S_zx_xz_pm, S_xy_yx_pm],
          [S_yz_zy_pm, S_xx_yy_zz_pmm, S_xy_yx_pp, S_zx_xz_pp],
          [S_zx_xz_pm, S_xy_yx_pp, S_xx_yy_zz_mpm, S_yz_zy_pp],
          [S_xy_yx_pm, S_zx_xz_pp, S_yz_zy_pp, S_xx_yy_zz_mmp]])"

definition rmsd_py ::
  "'f arithmetic \<Rightarrow> ('f vec list \<Rightarrow> 'f vec) \<Rightarrow> ('f list \<Rightarrow> 'f list \<Rightarrow> 'f)
   \<Rightarrow> ('f list list \<Rightarrow> error + 'f) \<Rightarrow> 'f vec list \<Rightarrow> 'f vec list \<Rightarrow> error + 'f"
where
  "rmsd_py ar np_mean np_dot lambda_max_eig coords1 coords2 =
     (let atol = f_lit ar (1 / 10 ^ 9);
          A = map (\<lambda>v. vsub ar v (np_mean coords1)) coords1;
          B = map (\<lambda>v. vsub ar v (np_mean coords2)) coords2;
          N = length A
      in ebind (matmul_T np_dot A A) (\<lambda>AtA.
         ebind (matmul_T np_dot B B) (\<lambda>BtB.
         ebind (M_mtx np_dot A B) (\<lambda>M.
         ebind (lambda_max_eig (K_mtx ar M)) (\<lambda>l_max.
           (let Ga = trace ar AtA;
                Gb = trace ar BtB;
                s = f_sub ar (f_add ar Ga Gb) (f_mul ar (f_lit ar 2) l_max)
            in if f_less ar (f_abs ar s) atol then Inr (f_lit ar 0)
               else Inr (f_sqrt ar (f_div ar s (f_lit ar (real N))))))))))"

section \<open>Density grid (\<open>rdkit_Class.py\<close>)\<close>

text \<open>
  The cells of \<open>self.box\<close> are float64 numbers; here the special values matter. A float64
  is a finite number, an infinity or NaN (the two zeros are not told apart). The rounding
  of a finite result to float64 is the parameter \<open>rnd\<close>; the results on zeros, infinities
  and NaN are those of IEEE 754, which numpy returns with a warning and without raising.
\<close>

datatype f64 = Finite real | PInf | NInf | NaN

fun f64_less :: "f64 \<Rightarrow> f64 \<Rightarrow> bool" where
  "f64_less (Finite a) (Finite b) = (a < b)"
| "f64_less (Finite a) PInf = True"
| "f64_less NInf (Finite b) = True"
| "f64_less NInf PInf = True"
| "f64_less _ _ = False"

fun f64_mul :: "(real \<Rightarrow> f64) \<Rightarrow> f64 \<Rightarrow> f64 \<Rightarrow> f64" where
  "f64_mul rnd (Finite a) (Finite b) = (if a = 0 \<or> b = 0 then Finite 0 else rnd (a * b))"
| "f64_mul rnd (Finite a) PInf = (if a = 0 then NaN else if 0 < a then PInf else NInf)"
| "f64_mul rnd (Finite a) NInf = (if a = 0 then NaN else if 0 < a then NInf else PInf)"
| "f64_mul rnd PInf (Finite b) = (if b = 0 then NaN else if 0 < b then PInf else NInf)"
| "f64_mul rnd NInf (Finite b) = (if b = 0 then NaN else if 0 < b then NInf else PInf)"
| "f64_mul rnd PInf PInf = PInf"
| "f64_mul rnd PInf NInf = NInf"
| "f64_mul rnd NInf PInf = NInf"
| "f64_mul rnd NInf NInf = PInf"
| "f64_mul rnd _ _ = NaN"

fun f64_div :: "(real \<Rightarrow> f64) \<Rightarrow> f64 \<Rightarrow> f64 \<Rightarrow> f64" where
  "f64_div rnd (Finite a) (Finite b) =
     (if b = 0 then (if a = 0 then NaN else if 0 < a then PInf else NInf)
      else if a = 0 then Finite 0 else rnd (a / b))"
| "f64_div rnd (Finite a) PInf = Finite 0"
| "f64_div rnd (Finite a) NInf = Finite 0"
| "f64_div rnd PInf (Finite b) = (if 0 \<le> b then PInf else NInf)"
| "f64_div rnd NInf (Finite b) = (if 0 \<le> b then NInf else PInf)"
| "f64_div rnd _ _ = NaN"

text \<open>
  The builtin \<open>max\<close> of Python keeps the first item and replaces it by every later item
  that is greater; on an empty sequence it raises ValueError.
\<close>

definition py_max :: "f64 list \<Rightarrow> error + f64" where
  "py_max xs =
     (case xs of
        [] \<Rightarrow> Inl ValueError
      | x # rest \<Rightarrow> Inr (foldl (\<lambda>m v. if f64_less m v then v else m) x rest))"

definition zeros :: "nat \<times> nat \<times> nat \<Rightarrow> f64 grid" where
  "zeros shp = \<lparr>shape = shp, cell = (\<lambda>x y z. Finite 0)\<rparr>"

text \<open>\<open>self.box.reshape((1, np.prod(shape)))[0]\<close>: the cells in row-major order.\<close>

definition flatten :: "'v grid \<Rightarrow> 'v list" where
  "flatten box =
     (case shape box of (sx, sy, sz) \<Rightarrow>
        concat (map (\<lambda>x. concat (map (\<lambda>y. map (\<lambda>z. cell box x y z) [0..<sz]) [0..<sy]))
          [0..<sx]))"

text \<open>
  The loop over the conformers. A conformer whose energy is not below 10 adds nothing.
  What is added for one atom (its voxel, the Boltzmann weight and the stamp, lines
  255 to 259) is the parameter \<open>stamp_atom\<close>; the reading of \<open>self.energies[i]\<close> raises
  IndexError beyond the energies.
\<close>

fun accumulate ::
  "(f64 \<Rightarrow> 'atom \<Rightarrow> f64 grid \<Rightarrow> f64 grid) \<Rightarrow> f64 list \<Rightarrow> nat \<Rightarrow> 'atom list list \<Rightarrow> f64 grid
   \<Rightarrow> error + f64 grid"
where
  "accumulate stamp_atom energies i [] box = Inr box"
| "accumulate stamp_atom energies i (conformer # rest) box =
     (if i < length energies then
        (if f64_less (energies ! i) (Finite 10)
         then accumulate stamp_atom energies (i + 1) rest
                (foldl (\<lambda>b atom. stamp_atom (energies ! i) atom b) box conformer)
         else accumulate stamp_atom energies (i + 1) rest box)
      else Inl IndexError)"

text \<open>The last statement: \<open>100 * self.box / max(\<dots>)\<close>.\<close>

definition normalize_box :: "(real \<Rightarrow> f64) \<Rightarrow> f64 grid \<Rightarrow> error + f64 grid" where
  "normalize_box rnd box =
     ebind (py_max (flatten box)) (\<lambda>m.
       Inr (box\<lparr>cell := (\<lambda>x y z. f64_div rnd (f64_mul rnd (Finite 100) (cell box x y z)) m)\<rparr>))"

text \<open>
  \<open>compute_CoDe\<close> from the reading of the atoms on. \<open>min(x_coords)\<close> raises ValueError when
  the ensemble has no atom. The shape of the box, computed from the extent of the atoms,
  the voxel size and the stamp, is the parameter \<open>shape_of\<close>.
\<close>

definition compute_CoDe ::
  "(real \<Rightarrow> f64) \<Rightarrow> ('atom list \<Rightarrow> nat \<times> nat \<times> nat) \<Rightarrow> (f64 \<Rightarrow> 'atom \<Rightarrow> f64 grid \<Rightarrow> f64 grid)
   \<Rightarrow> f64 list \<Rightarrow> 'atom list list \<Rightarrow> error + f64 grid"
where
  "compute_CoDe rnd shape_of stamp_atom energies atomcoords =
     (let atoms = concat atomcoords
      in if atoms = [] then Inl ValueError
         else ebind (accumulate stamp_atom energies 0 atomcoords (zeros (shape_of atoms)))
                (normalize_box rnd))"

section \<open>Verification of the clash detector\<close>

lemma exact_distance:
  "norm_of exact_arithmetic (vsub exact_arithmetic v w) = euclidean_distance v w"
  by (cases v; cases w)
    (simp add: norm_of_def vsub_def exact_arithmetic_def euclidean_distance_def power2_eq_square)

lemma exact_distance_commute:
  "norm_of exact_arithmetic (vsub exact_arithmetic v w)
   = norm_of exact_arithmetic (vsub exact_arithmetic w v)"
  by (simp add: exact_distance euclidean_distance_def power2_commute)

lemma inner_loop_count:
  "clashes \<le> mc \<Longrightarrow>
   inner_loop ar thresh mc v1 m2 clashes =
     (if clashes + int (length (filter (\<lambda>v2. f_less ar (norm_of ar (vsub ar v1 v2)) thresh) m2))
         \<le> mc
      then Some (clashes
             + int (length (filter (\<lambda>v2. f_less ar (norm_of ar (vsub ar v1 v2)) thresh) m2)))
      else None)"
proof (induction m2 arbitrary: clashes)
  case Nil
  then show ?case by simp
next
  case (Cons v2 m2)
  then show ?case by (auto simp: Let_def)
qed

lemma close_count_Nil [simp]: "close_count ar thresh [] m2 = 0"
  by (simp add: close_count_def)

lemma close_count_Cons:
  "close_count ar thresh (v1 # m1) m2 =
     length (filter (\<lambda>v2. f_less ar (norm_of ar (vsub ar v1 v2)) thresh) m2)
     + close_count ar thresh m1 m2"
  by (simp add: close_count_def filter_map comp_def)

lemma pair_loop_count:
  "clashes \<le> mc \<Longrightarrow>
   pair_loop ar thresh mc m1 m2 clashes =
     (if clashes + int (close_count ar thresh m1 m2) \<le> mc
      then Some (clashes + int (close_count ar thresh m1 m2)) else None)"
proof (induction m1 arbitrary: clashes)
  case Nil
  then show ?case by simp
next
  case (Cons v1 m1)
  then show ?case by (auto simp: inner_loop_count close_count_Cons)
qed

lemma pairs_count_Nil [simp]: "pairs_count P [] B = 0"
  by (simp add: pairs_count_def)

lemma pairs_count_Nil2 [simp]: "pairs_count P A [] = 0"
  by (induction A) (simp_all add: pairs_count_def)

lemma take_drop_upt:
  assumes "b \<le> length xs"
  shows "take (b - a) (drop a xs) = map ((!) xs) [a..<b]"
proof (cases "a \<le> b")
  case True
  have "take (b - a) (drop a (map ((!) xs) [0..<length xs])) = map ((!) xs) [a..<b]"
    using True assms by (simp add: drop_map take_map)
  then show ?thesis by (simp add: map_nth)
next
  case False
  then show ?thesis by simp
qed

lemma pairs_count_Cons:
  "pairs_count P (a # A) B = length (filter (P a) B) + pairs_count P A B"
  by (simp add: pairs_count_def filter_map comp_def)

lemma pairs_count_append1:
  "pairs_count P (A @ B) C = pairs_count P A C + pairs_count P B C"
  by (induction A) (simp_all add: pairs_count_Cons)

lemma pairs_count_append2:
  "pairs_count P A (B @ C) = pairs_count P A B + pairs_count P A C"
  by (induction A) (simp_all add: pairs_count_Cons)

lemma pairs_count_cong:
  "(\<And>i j. i \<in> set A \<Longrightarrow> j \<in> set B \<Longrightarrow> P i j = Q i j) \<Longrightarrow>
   pairs_count P A B = pairs_count Q A B"
proof (induction A)
  case Nil
  then show ?case by simp
next
  case (Cons a A)
  have "filter (P a) B = filter (Q a) B"
    by (rule filter_cong) (simp_all add: Cons.prems)
  with Cons show ?case by (simp add: pairs_count_Cons)
qed

lemma pairs_count_zero:
  "(\<And>i j. i \<in> set A \<Longrightarrow> j \<in> set B \<Longrightarrow> \<not> P i j) \<Longrightarrow> pairs_count P A B = 0"
proof (induction A)
  case Nil
  then show ?case by simp
next
  case (Cons a A)
  have "filter (P a) B = []"
    by (simp add: filter_empty_conv Cons.prems)
  with Cons show ?case by (simp add: pairs_count_Cons)
qed

lemma pairs_count_single2:
  "pairs_count P A [b] = length (filter (\<lambda>i. P i b) A)"
  by (induction A) (simp_all add: pairs_count_Cons)

lemma pairs_count_swap:
  "pairs_count P A B = pairs_count (\<lambda>j i. P i j) B A"
proof (induction A)
  case Nil
  then show ?case by simp
next
  case (Cons a A)
  have "pairs_count (\<lambda>j i. P i j) B (a # A)
        = pairs_count (\<lambda>j i. P i j) B [a] + pairs_count (\<lambda>j i. P i j) B A"
    using pairs_count_append2 [of "\<lambda>j i. P i j" B "[a]" A] by simp
  with Cons show ?case
    by (simp add: pairs_count_Cons pairs_count_single2)
qed

lemma close_count_nth:
  "close_count ar thresh (map ((!) xs) A) (map ((!) xs) B)
   = pairs_count (\<lambda>i j. f_less ar (norm_of ar (vsub ar (xs ! i) (xs ! j))) thresh) A B"
  by (induction A) (simp_all add: close_count_Cons pairs_count_Cons filter_map comp_def)

lemma clash_pairs_count:
  "length (clash_pairs ar coords counts thresh)
   = pairs_count (\<lambda>i j. i < j \<and> fragment_of counts i \<noteq> fragment_of counts j
                        \<and> f_less ar (norm_of ar (vsub ar (coords ! i) (coords ! j))) thresh)
       [0..<length coords] [0..<length coords]"
  by (simp add: clash_pairs_def pairs_count_def)

lemma upt_split3:
  "[0..<a + b + c] = [0..<a] @ [a..<a + b] @ [a + b..<a + b + c]"
  by (metis add.assoc le_add1 upt_add_eq_append add_0)

lemma three_fragments_count:
  assumes n: "length coords = n1 + n2 + n3"
    and sym: "\<And>u v. norm_of ar (vsub ar u v) = norm_of ar (vsub ar v u)"
  shows "length (clash_pairs ar coords [n1, n2, n3] thresh)
         = close_count ar thresh (slice coords 0 (int n1))
             (slice coords (int n1) (int n1 + int n2))
         + close_count ar thresh (slice coords (int n1) (int n1 + int n2))
             (slice_from coords (int n1 + int n2))
         + close_count ar thresh (slice_from coords (int n1 + int n2))
             (slice coords 0 (int n1))"
proof -
  let ?D = "\<lambda>i j. f_less ar (norm_of ar (vsub ar (coords ! i) (coords ! j))) thresh"
  let ?P = "\<lambda>i j. i < j \<and> fragment_of [n1, n2, n3] i \<noteq> fragment_of [n1, n2, n3] j \<and> ?D i j"
  let ?I1 = "[0..<n1]" and ?I2 = "[n1..<n1 + n2]" and ?I3 = "[n1 + n2..<n1 + n2 + n3]"
  have m1: "slice coords 0 (int n1) = map ((!) coords) ?I1"
    using n take_drop_upt [of n1 coords 0] by (simp add: slice_def clip_def)
  have m2: "slice coords (int n1) (int n1 + int n2) = map ((!) coords) ?I2"
    using n take_drop_upt [of "n1 + n2" coords n1]
    by (simp add: slice_def clip_def nat_add_distrib)
  have m3: "slice_from coords (int n1 + int n2) = map ((!) coords) ?I3"
    using n take_drop_upt [of "n1 + n2 + n3" coords "n1 + n2"]
    by (simp add: slice_from_def clip_def nat_add_distrib)
  have z11: "pairs_count ?P ?I1 ?I1 = 0" by (rule pairs_count_zero) auto
  have z22: "pairs_count ?P ?I2 ?I2 = 0" by (rule pairs_count_zero) auto
  have z33: "pairs_count ?P ?I3 ?I3 = 0" by (rule pairs_count_zero) auto
  have z21: "pairs_count ?P ?I2 ?I1 = 0" by (rule pairs_count_zero) auto
  have z31: "pairs_count ?P ?I3 ?I1 = 0" by (rule pairs_count_zero) auto
  have z32: "pairs_count ?P ?I3 ?I2 = 0" by (rule pairs_count_zero) auto
  have c12: "pairs_count ?P ?I1 ?I2 = pairs_count ?D ?I1 ?I2"
    by (rule pairs_count_cong) auto
  have c23: "pairs_count ?P ?I2 ?I3 = pairs_count ?D ?I2 ?I3"
    by (rule pairs_count_cong) auto
  have c13: "pairs_count ?P ?I1 ?I3 = pairs_count ?D ?I1 ?I3"
    by (rule pairs_count_cong) auto
  have "pairs_count ?D ?I1 ?I3 = pairs_count (\<lambda>j i. ?D i j) ?I3 ?I1"
    by (rule pairs_count_swap)
  also have "\<dots> = pairs_count ?D ?I3 ?I1"
    by (rule pairs_count_cong) (simp add: sym)
  finally have s13: "pairs_count ?D ?I1 ?I3 = pairs_count ?D ?I3 ?I1" .
  have "length (clash_pairs ar coords [n1, n2, n3] thresh)
        = pairs_count ?P (?I1 @ ?I2 @ ?I3) (?I1 @ ?I2 @ ?I3)"
    by (simp only: clash_pairs_count n upt_split3)
  also have "\<dots> = pairs_count ?D ?I1 ?I2 + pairs_count ?D ?I2 ?I3 + pairs_count ?D ?I3 ?I1"
    by (simp only: pairs_count_append1 pairs_count_append2
        z11 z22 z33 z21 z31 z32 c12 c23 c13 s13)
  finally show ?thesis
    by (simp only: m1 m2 m3 close_count_nth)
qed

lemma two_fragments_count:
  assumes n: "length coords = n1 + n2"
  shows "length (clash_pairs ar coords [n1, n2] thresh)
         = close_count ar thresh (slice coords 0 (int n1)) (slice_from coords (int n1))"
proof -
  let ?D = "\<lambda>i j. f_less ar (norm_of ar (vsub ar (coords ! i) (coords ! j))) thresh"
  let ?P = "\<lambda>i j. i < j \<and> fragment_of [n1, n2] i \<noteq> fragment_of [n1, n2] j \<and> ?D i j"
  let ?I1 = "[0..<n1]" and ?I2 = "[n1..<n1 + n2]"
  have m1: "slice coords 0 (int n1) = map ((!) coords) ?I1"
    using n take_drop_upt [of n1 coords 0] by (simp add: slice_def clip_def)
  have m2: "slice_from coords (int n1) = map ((!) coords) ?I2"
    using n take_drop_upt [of "n1 + n2" coords n1] by (simp add: slice_from_def clip_def)
  have z11: "pairs_count ?P ?I1 ?I1 = 0" by (rule pairs_count_zero) auto
  have z22: "pairs_count ?P ?I2 ?I2 = 0" by (rule pairs_count_zero) auto
  have z21: "pairs_count ?P ?I2 ?I1 = 0" by (rule pairs_count_zero) auto
  have c12: "pairs_count ?P ?I1 ?I2 = pairs_count ?D ?I1 ?I2"
    by (rule pairs_count_cong) auto
  have split: "[0..<n1 + n2] = ?I1 @ ?I2"
    using upt_add_eq_append [of 0 n1 n2] by simp
  have "length (clash_pairs ar coords [n1, n2] thresh)
        = pairs_count ?P (?I1 @ ?I2) (?I1 @ ?I2)"
    by (simp only: clash_pairs_count n split)
  also have "\<dots> = pairs_count ?D ?I1 ?I2"
    by (simp only: pairs_count_append1 pairs_count_append2 z11 z22 z21 c12)
  finally show ?thesis
    by (simp only: m1 m2 close_count_nth)
qed

lemma exact_clash_pairs:
  "clash_pairs exact_arithmetic coords counts thresh = euclidean_clash_pairs coords counts thresh"
  by (simp add: clash_pairs_def euclidean_clash_pairs_def exact_distance)
    (simp add: exact_arithmetic_def)

lemma compenetration_check_count:
  assumes mc: "0 \<le> max_clashes"
    and ids: "ids = map int counts"
    and len: "length counts = 2 \<or> length counts = 3"
    and part: "sum_list counts = length coords"
    and sym: "\<And>u v. norm_of ar (vsub ar u v) = norm_of ar (vsub ar v u)"
  shows "compenetration_check ar coords ids thresh max_clashes
         = Inr (int (length (clash_pairs ar coords counts thresh)) \<le> max_clashes)"
proof -
  from len show ?thesis
  proof
    assume "length counts = 2"
    then obtain n1 n2 where c: "counts = [n1, n2]"
      by (cases counts; cases "tl counts"; cases "tl (tl counts)") auto
    with part have n: "length coords = n1 + n2" by simp
    show ?thesis
      using mc by (simp add: compenetration_check_def ids c pair_loop_count
          two_fragments_count [OF n] Let_def)
  next
    assume "length counts = 3"
    then obtain n1 n2 n3 where c: "counts = [n1, n2, n3]"
      by (cases counts; cases "tl counts"; cases "tl (tl counts)"; cases "tl (tl (tl counts))")
        auto
    with part have n: "length coords = n1 + n2 + n3" by simp
    let ?a = "close_count ar thresh (slice coords 0 (int n1))
                (slice coords (int n1) (int n1 + int n2))"
    let ?b = "close_count ar thresh (slice coords (int n1) (int n1 + int n2))
                (slice_from coords (int n1 + int n2))"
    let ?c = "close_count ar thresh (slice_from coords (int n1 + int n2))
                (slice coords 0 (int n1))"
    have total: "length (clash_pairs ar coords [n1, n2, n3] thresh) = ?a + ?b + ?c"
      by (rule three_fragments_count [OF n sym])
    show ?thesis
      using mc by (auto simp: compenetration_check_def ids c pair_loop_count total Let_def)
  qed
qed

text \<open>
  Claim C2, as the code has it. Take a coordinate array partitioned into two or three
  fragments by the atom counts and a tolerated number of clashes that is not negative.
  Then \<open>compenetration_check\<close> returns \<open>True\<close> exactly when the number of pairs of atoms
  of different fragments whose distance is strictly below the threshold is at most
  \<open>max_clashes\<close>; pairs inside one fragment are not counted. The distance is the one the
  code computes, in any arithmetic in which it does not depend on the order of the two
  atoms (first conjunct); in exact arithmetic it is the Euclidean distance (second
  conjunct).
\<close>

theorem compenetration_check_iff:
  assumes mc: "0 \<le> max_clashes"
    and ids: "ids = map int counts"
    and len: "length counts = 2 \<or> length counts = 3"
    and part: "sum_list counts = length coords"
    and part': "sum_list counts = length points"
    and sym: "\<And>u v. norm_of ar (vsub ar u v) = norm_of ar (vsub ar v u)"
  shows "compenetration_check ar coords ids thresh max_clashes
           = Inr (int (length (clash_pairs ar coords counts thresh)) \<le> max_clashes)
         \<and> compenetration_check exact_arithmetic points ids radius max_clashes
           = Inr (int (length (euclidean_clash_pairs points counts radius)) \<le> max_clashes)"
  using compenetration_check_count [OF mc ids len part sym]
    compenetration_check_count [OF mc ids len part' exact_distance_commute]
  by (simp add: exact_clash_pairs)

theorem compenetration_check_iff_witness:
  "compenetration_check exact_arithmetic [(0, 0, 0), (1, 0, 0), (1, 0, 0)] [1, 1, 1] (3 / 2) 2
     = Inr False
   \<and> length (euclidean_clash_pairs [(0, 0, 0), (1, 0, 0), (1, 0, 0)] [1, 1, 1] (3 / 2)) = 3
   \<and> compenetration_check exact_arithmetic [(0, 0, 0), (1, 0, 0), (2, 0, 0)] [1, 2] (3 / 2) 1
     = Inr True
   \<and> length (euclidean_clash_pairs [(0, 0, 0), (1, 0, 0), (2, 0, 0)] [1, 2] (3 / 2)) = 1"
proof -
  let ?p = "[(0, 0, 0), (1, 0, 0), (1, 0, 0)] :: real vec list"
  let ?q = "[(0, 0, 0), (1, 0, 0), (2, 0, 0)] :: real vec list"
  have mc: "(0::int) \<le> 2" "(0::int) \<le> 1" by simp_all
  have ids: "[1, 1, 1] = map int [1, 1, 1]" "[1, 2] = map int [1, 2]" by simp_all
  have len: "length [1, 1, 1 :: nat] = 2 \<or> length [1, 1, 1 :: nat] = 3"
    "length [1, 2 :: nat] = 2 \<or> length [1, 2 :: nat] = 3" by simp_all
  have part: "sum_list [1, 1, 1] = length ?p" "sum_list [1, 2] = length ?q" by simp_all
  have three: "length (euclidean_clash_pairs ?p [1, 1, 1] (3 / 2)) = 3"
    by (simp add: euclidean_clash_pairs_def euclidean_distance_def)
  have two: "length (euclidean_clash_pairs ?q [1, 2] (3 / 2)) = 1"
    by (simp add: euclidean_clash_pairs_def euclidean_distance_def)
  have "compenetration_check exact_arithmetic ?p [1, 1, 1] (3 / 2) 2
        = Inr (int (length (euclidean_clash_pairs ?p [1, 1, 1] (3 / 2))) \<le> 2)"
    by (rule compenetration_check_iff [OF mc(1) ids(1) len(1) part(1) part(1)
          exact_distance_commute, THEN conjunct2])
  moreover have "compenetration_check exact_arithmetic ?q [1, 2] (3 / 2) 1
        = Inr (int (length (euclidean_clash_pairs ?q [1, 2] (3 / 2))) \<le> 1)"
    by (rule compenetration_check_iff [OF mc(2) ids(2) len(2) part(2) part(2)
          exact_distance_commute, THEN conjunct2])
  ultimately show ?thesis
    by (simp only: three two) simp
qed

text \<open>
  The claim as stated fails for a negative \<open>max_clashes\<close>: when a fragment is empty no
  pair is visited, the test \<open>clashes > max_clashes\<close> is never reached and the function
  returns \<open>True\<close>, although the number of clashes, zero, exceeds \<open>max_clashes\<close>.
\<close>

theorem compenetration_check_negative_counterexample:
  "compenetration_check exact_arithmetic [(0, 0, 0)] [1, 0] (3 / 2) (- 1) = Inr True
   \<and> \<not> int (length (euclidean_clash_pairs [(0, 0, 0)] [1, 0] (3 / 2))) \<le> - 1"
  by (simp add: compenetration_check_def slice_def slice_from_def clip_def)

text \<open>
  Claim C4, as the code has it. The function has no check of the number of atom counts.
  With fewer than two counts the read of \<open>ids[0]\<close> or \<open>ids[1]\<close> raises IndexError. With
  three or more counts the \<open>else\<close> branch computes a verdict from the first two counts
  alone: the fragments are \<open>coords[0:ids[0]]\<close>, \<open>coords[ids[0]:ids[0]+ids[1]]\<close> and the rest
  of the array, so the third count and every later one are never read and may be replaced
  by any other.
\<close>

theorem compenetration_check_length:
  "(length ids < 2 \<longrightarrow> compenetration_check ar coords ids thresh max_clashes = Inl IndexError)
   \<and> (3 \<le> length ids \<longrightarrow>
        compenetration_check ar coords ids thresh max_clashes
          = Inr (case pair_loop ar thresh max_clashes
                        (slice coords 0 (ids ! 0))
                        (slice coords (ids ! 0) (ids ! 0 + ids ! 1)) 0 of
                   None \<Rightarrow> False
                 | Some c1 \<Rightarrow>
                     (case pair_loop ar thresh max_clashes
                             (slice coords (ids ! 0) (ids ! 0 + ids ! 1))
                             (slice_from coords (ids ! 0 + ids ! 1)) c1 of
                        None \<Rightarrow> False
                      | Some c2 \<Rightarrow>
                          pair_loop ar thresh max_clashes
                            (slice_from coords (ids ! 0 + ids ! 1))
                            (slice coords 0 (ids ! 0)) c2 \<noteq> None))
        \<and> compenetration_check ar coords ids thresh max_clashes
          = compenetration_check ar coords (ids ! 0 # ids ! 1 # i2 # others) thresh max_clashes)"
proof (intro conjI impI)
  assume "length ids < 2"
  then show "compenetration_check ar coords ids thresh max_clashes = Inl IndexError"
    by (cases ids; cases "tl ids") (auto simp: compenetration_check_def)
next
  assume l: "3 \<le> length ids"
  then obtain j0 j1 j2 rest where i: "ids = j0 # j1 # j2 # rest"
    by (cases ids; cases "tl ids"; cases "tl (tl ids)") auto
  show "compenetration_check ar coords ids thresh max_clashes
          = Inr (case pair_loop ar thresh max_clashes
                        (slice coords 0 (ids ! 0))
                        (slice coords (ids ! 0) (ids ! 0 + ids ! 1)) 0 of
                   None \<Rightarrow> False
                 | Some c1 \<Rightarrow>
                     (case pair_loop ar thresh max_clashes
                             (slice coords (ids ! 0) (ids ! 0 + ids ! 1))
                             (slice_from coords (ids ! 0 + ids ! 1)) c1 of
                        None \<Rightarrow> False
                      | Some c2 \<Rightarrow>
                          pair_loop ar thresh max_clashes
                            (slice_from coords (ids ! 0 + ids ! 1))
                            (slice coords 0 (ids ! 0)) c2 \<noteq> None))"
    by (simp add: i compenetration_check_def Let_def split: option.split)
  show "compenetration_check ar coords ids thresh max_clashes
          = compenetration_check ar coords (ids ! 0 # ids ! 1 # i2 # others) thresh max_clashes"
    by (simp add: i compenetration_check_def)
qed

theorem compenetration_check_length_witness:
  "compenetration_check exact_arithmetic [] [] (3 / 2) 2 = Inl IndexError
   \<and> compenetration_check exact_arithmetic [] [5] (3 / 2) 2 = Inl IndexError
   \<and> compenetration_check exact_arithmetic [(0, 0, 0), (1, 0, 0)] [1, 1, 0, 7] (3 / 2) 0
       = compenetration_check exact_arithmetic [(0, 0, 0), (1, 0, 0)] [1, 1, 5] (3 / 2) 0"
proof -
  have a: "length ([] :: int list) < 2" and b: "length [5 :: int] < 2"
    and c: "3 \<le> length [1, 1, 0, 7 :: int]" by simp_all
  have "compenetration_check exact_arithmetic [] [] (3 / 2) 2 = Inl IndexError"
    using compenetration_check_length [of "[]" exact_arithmetic "[]" "3 / 2" 2] a by blast
  moreover have "compenetration_check exact_arithmetic [] [5] (3 / 2) 2 = Inl IndexError"
    using compenetration_check_length [of "[5]" exact_arithmetic "[]" "3 / 2" 2] b by blast
  moreover have "compenetration_check exact_arithmetic [(0, 0, 0), (1, 0, 0)] [1, 1, 0, 7] (3 / 2) 0
      = compenetration_check exact_arithmetic [(0, 0, 0), (1, 0, 0)]
          ([1, 1, 0, 7] ! 0 # [1, 1, 0, 7] ! 1 # 5 # []) (3 / 2) 0"
    using compenetration_check_length [of "[1, 1, 0, 7]" exact_arithmetic
        "[(0, 0, 0), (1, 0, 0)]" "3 / 2" 0 5 "[]"] c by blast
  ultimately show ?thesis by simp
qed

text \<open>
  A sequence of four atom counts is not refused: a verdict is computed.
\<close>

theorem compenetration_check_four_counts_counterexample:
  "length [1, 1, 0, 7 :: int] \<noteq> 2 \<and> length [1, 1, 0, 7 :: int] \<noteq> 3
   \<and> compenetration_check exact_arithmetic [(0, 0, 0), (1, 0, 0)] [1, 1, 0, 7] (3 / 2) 0
       = Inr False"
  by (simp add: compenetration_check_def slice_def slice_from_def clip_def norm_of_def vsub_def
      exact_arithmetic_def)

text \<open>
  Claim C10. With exactly two atom counts the verdict depends on the first one only: the
  second fragment is every atom from index \<open>ids[0]\<close> to the end of the array, and the
  second count is never read.
\<close>

theorem compenetration_check_two_counts:
  "compenetration_check ar coords [i0, i1] thresh max_clashes
     = compenetration_check ar coords [i0, i1'] thresh max_clashes
   \<and> compenetration_check ar coords [i0, i1] thresh max_clashes
     = Inr (pair_loop ar thresh max_clashes (slice coords 0 i0) (slice_from coords i0) 0 \<noteq> None)"
  by (simp add: compenetration_check_def split: option.split)

section \<open>Verification of the deduplication: length and order of the mask\<close>

lemma length_mask_update: "length (foldl (\<lambda>keep i. keep[i := False]) m rs) = length m"
  by (induction rs arbitrary: m) simp_all

lemma length_shard_mask:
  "length (shard_mask tuple_nodes kabsch_rmsd max_rmsd ss) = length ss"
  by (simp add: shard_mask_def Let_def length_mask_update)

lemma clip_int [simp]: "clip n (int a) = min n a"
  by (simp add: clip_def)

lemma concat_blocks:
  "d * m \<le> length xs \<Longrightarrow>
   concat (map (\<lambda>step. slice xs (int (d * step)) (int (d * (step + 1)))) [0..<m]) = take (d * m) xs"
proof (induction m)
  case 0
  then show ?case by simp
next
  case (Suc m)
  then have le: "d * m \<le> length xs" and le': "d * m + d \<le> length xs" by simp_all
  have "slice xs (int (d * m)) (int (d * (m + 1))) = take d (drop (d * m) xs)"
    unfolding slice_def clip_int using le le' by (simp add: min_def)
  moreover have "take (d * m) xs @ take d (drop (d * m) xs) = take (d * Suc m) xs"
  proof -
    have "d * Suc m = d * m + d" by simp
    then show ?thesis by (simp only: take_add)
  qed
  ultimately show ?case using Suc.IH [OF le]
    by (simp del: of_nat_mult of_nat_add)
qed

lemma concat_shards:
  assumes "0 < k"
  shows "concat (shards xs k) = xs"
proof -
  let ?d = "length xs div k"
  let ?f = "\<lambda>step. if step = k - 1 then slice_from xs (int (?d * step))
                      else slice xs (int (?d * step)) (int (?d * (step + 1)))"
  let ?g = "\<lambda>step. slice xs (int (?d * step)) (int (?d * (step + 1)))"
  obtain m where k: "k = Suc m" using assms by (cases k) auto
  have le: "?d * m \<le> length xs"
  proof -
    have "?d * m \<le> ?d * k" by (simp add: k)
    also have "\<dots> \<le> length xs" by (simp add: mult.commute)
    finally show ?thesis .
  qed
  have body: "map ?f [0..<m] = map ?g [0..<m]"
    by (rule map_cong) (simp_all add: k del: of_nat_mult of_nat_add)
  have last: "?f m = drop (?d * m) xs"
    unfolding slice_from_def clip_int using le by (simp add: min_def k)
  have "shards xs k = map ?f [0..<m] @ [?f m]"
    unfolding shards_def Let_def by (simp add: k del: of_nat_mult of_nat_add)
  then have "concat (shards xs k) = concat (map ?g [0..<m]) @ drop (?d * m) xs"
    by (simp only: body last concat_append concat.simps append_Nil2)
  then show ?thesis
    using concat_blocks [OF le] by simp
qed

lemma length_concat_masks:
  "length (concat (map (shard_mask tuple_nodes kabsch_rmsd max_rmsd) xss)) = length (concat xss)"
  by (induction xss) (simp_all add: length_shard_mask)

lemma length_prune_shards:
  "0 < k \<Longrightarrow>
   \<exists>m. prune_shards tuple_nodes kabsch_rmsd xs k max_rmsd = Inr m \<and> length m = length xs"
  by (simp add: prune_shards_def length_concat_masks concat_shards)

lemma first_index_Some:
  "first_index sequence i = Some p \<Longrightarrow> p < length sequence \<and> sequence ! p = i"
  by (induction sequence arbitrary: p) (auto split: if_splits)

lemma first_index_mem: "i \<in> set sequence \<Longrightarrow> \<exists>p. first_index sequence i = Some p"
  by (induction sequence) auto

lemma first_index_nth:
  "distinct sequence \<Longrightarrow> p < length sequence \<Longrightarrow> first_index sequence (sequence ! p) = Some p"
proof (induction sequence arbitrary: p)
  case Nil
  then show ?case by simp
next
  case (Cons s ss)
  show ?case
  proof (cases p)
    case 0
    then show ?thesis by simp
  next
    case (Suc q)
    with Cons.prems have "q < length ss" and "ss ! q \<noteq> s" by auto
    with Cons Suc show ?thesis by simp
  qed
qed

lemma permutation_set:
  assumes "is_permutation sequence n"
  shows "set sequence = {0..<n}"
proof -
  from assms have len: "length sequence = n" and d: "distinct sequence"
    and sub: "set sequence \<subseteq> {0..<n}"
    by (auto simp: is_permutation_def list_all_iff)
  have "card (set sequence) = card {0..<n}"
    using d len by (simp add: distinct_card)
  with sub show ?thesis by (simp add: card_subset_eq)
qed

lemma permutation_inverse:
  assumes "is_permutation sequence n"
  shows "inv_sequence_of sequence [0..<n] = Inr (map (\<lambda>i. the (first_index sequence i)) [0..<n])"
    and "i < n \<Longrightarrow> the (first_index sequence i) < n"
    and "i < n \<Longrightarrow> sequence ! (the (first_index sequence i)) = i"
    and "p < n \<Longrightarrow> the (first_index sequence (sequence ! p)) = p"
proof -
  from assms have len: "length sequence = n" and d: "distinct sequence"
    by (auto simp: is_permutation_def)
  have found: "\<exists>p. first_index sequence i = Some p" if "i < n" for i
    using permutation_set [OF assms] that by (intro first_index_mem) simp
  show "inv_sequence_of sequence [0..<n] = Inr (map (\<lambda>i. the (first_index sequence i)) [0..<n])"
    using found by (auto simp: inv_sequence_of_def list_all_iff)
  show "the (first_index sequence i) < n" if "i < n"
    using found [OF that] first_index_Some len by fastforce
  show "sequence ! (the (first_index sequence i)) = i" if "i < n"
    using found [OF that] first_index_Some by fastforce
  show "the (first_index sequence (sequence ! p)) = p" if "p < n"
    using first_index_nth [OF d] that len by simp
qed

lemma scramble_roundtrip:
  assumes perm: "is_permutation sequence (length a)"
  defines "inv_seq \<equiv> map (\<lambda>i. the (first_index sequence i)) [0..<length a]"
  shows "scramble a sequence = Inr (map (\<lambda>s. a ! s) sequence)"
    and "scramble (map (\<lambda>s. a ! s) sequence) inv_seq = Inr a"
proof -
  from perm have len: "length sequence = length a"
    and bound: "list_all (\<lambda>s. s < length a) sequence"
    by (auto simp: is_permutation_def)
  show "scramble a sequence = Inr (map (\<lambda>s. a ! s) sequence)"
    using bound by (simp add: scramble_def)
  have "map (\<lambda>s. map (\<lambda>s. a ! s) sequence ! s) inv_seq = a"
    by (rule nth_equalityI)
      (simp_all add: inv_seq_def len permutation_inverse(2,3) [OF perm])
  then show "scramble (map (\<lambda>s. a ! s) sequence) inv_seq = Inr a"
    by (simp add: scramble_def inv_seq_def len list_all_iff permutation_inverse(2) [OF perm])
qed

lemma scramble_mask_roundtrip:
  assumes perm: "is_permutation sequence n" and m: "length m = n"
  defines "inv_seq \<equiv> map (\<lambda>i. the (first_index sequence i)) [0..<n]"
  shows "scramble_mask m inv_seq = Inr (map (\<lambda>s. m ! s) inv_seq)"
    and "scramble_mask (map (\<lambda>s. m ! s) inv_seq) sequence = Inr m"
    and "length (map (\<lambda>s. m ! s) inv_seq) = n"
proof -
  from perm have len: "length sequence = n"
    and bound: "list_all (\<lambda>s. s < n) sequence"
    by (auto simp: is_permutation_def)
  show "scramble_mask m inv_seq = Inr (map (\<lambda>s. m ! s) inv_seq)"
    by (simp add: scramble_mask_def inv_seq_def m list_all_iff permutation_inverse(2) [OF perm])
  show "length (map (\<lambda>s. m ! s) inv_seq) = n"
    by (simp add: inv_seq_def)
  have "map (\<lambda>s. map (\<lambda>s. m ! s) inv_seq ! s) sequence = m"
  proof (rule nth_equalityI)
    show "length (map (\<lambda>s. map (\<lambda>s. m ! s) inv_seq ! s) sequence) = length m"
      by (simp add: len m)
  next
    fix p assume "p < length (map (\<lambda>s. map (\<lambda>s. m ! s) inv_seq ! s) sequence)"
    then have p: "p < n" by (simp add: len)
    then have "sequence ! p < n"
      using bound len by (simp add: list_all_length)
    then show "map (\<lambda>s. map (\<lambda>s. m ! s) inv_seq ! s) sequence ! p = m ! p"
      using p by (simp add: len inv_seq_def permutation_inverse(4) [OF perm])
  qed
  then show "scramble_mask (map (\<lambda>s. m ! s) inv_seq) sequence = Inr m"
    using bound by (simp add: scramble_mask_def inv_seq_def)
qed

text \<open>
  Claim C7. For every ensemble and every number of shards \<open>k\<close> from 1 to the length of
  the ensemble, whatever permutation is drawn, \<open>prune_conformers\<close> returns a subset and a
  mask, and the mask is as long as the ensemble.
\<close>

theorem prune_conformers_mask_length:
  assumes k: "1 \<le> k" "k \<le> int (length structures)"
    and perm: "is_permutation sequence (length structures)"
  shows "\<exists>subset keep.
           prune_conformers tuple_nodes kabsch_rmsd sequence structures k max_rmsd
             = Inr (subset, keep)
           \<and> length keep = length structures"
proof (cases "k = 1")
  case True
  obtain m where m: "prune_shards tuple_nodes kabsch_rmsd structures k max_rmsd = Inr m"
    "length m = length structures"
    using length_prune_shards [of k tuple_nodes kabsch_rmsd structures max_rmsd] k by auto
  show ?thesis
    using True m by (simp add: prune_conformers_def ebind_def select_mask_def)
next
  case False
  let ?n = "length structures"
  let ?shuffled = "map (\<lambda>s. structures ! s) sequence"
  have len: "length ?shuffled = ?n"
    using perm by (simp add: is_permutation_def)
  have pos: "structures \<noteq> []" using k by auto
  obtain m where m: "prune_shards tuple_nodes kabsch_rmsd ?shuffled k max_rmsd = Inr m"
    "length m = ?n"
    using length_prune_shards [of k tuple_nodes kabsch_rmsd ?shuffled max_rmsd] k len by auto
  show ?thesis
    using False m(1) pos
    by (simp add: prune_conformers_def ebind_def select_mask_def
        permutation_inverse(1) [OF perm] scramble_roundtrip [OF perm]
        scramble_mask_roundtrip(1) [OF perm m(2)])
qed

theorem prune_conformers_mask_length_witness:
  "is_permutation [0, 2, 1, 3] (length [0, 5, 1 / 2, 51 / 10 :: real])
   \<and> (\<exists>subset keep.
         prune_conformers (\<lambda>es c. c) (\<lambda>x y. \<bar>x - y\<bar>) [0, 2, 1, 3]
             [0, 5, 1 / 2, 51 / 10 :: real] 2 1
           = Inr (subset, keep)
         \<and> length keep = length [0, 5, 1 / 2, 51 / 10 :: real])"
proof -
  have k: "(1::int) \<le> 2" "2 \<le> int (length [0, 5, 1 / 2, 51 / 10 :: real])" by simp_all
  have perm: "is_permutation [0, 2, 1, 3] (length [0, 5, 1 / 2, 51 / 10 :: real])"
    by (simp add: is_permutation_def)
  from prune_conformers_mask_length [OF k perm] perm show ?thesis by blast
qed



section \<open>Verification of the deduplication: edges, components and representatives\<close>

lemma length_row_scan [simp]:
  "length (row_scan r t ss i js mat) = length mat"
  by (induction js arbitrary: mat) (simp_all add: Let_def)


lemma length_row_scan_row [simp]:
  "length (row_scan r t ss i js mat ! i') = length (mat ! i')"
proof (induction js arbitrary: mat)
  case Nil
  then show ?case by simp
next
  case (Cons j js)
  have "length (mat[i := (mat ! i)[j := v]] ! i') = length (mat ! i')" for v
    by (cases "i' = i"; cases "i < length mat") (simp_all add: list_update_beyond)
  with Cons show ?case by (simp add: Let_def)
qed






lemma set_add_node [simp]: "set (add_node ns v) = insert v (set ns)"
  by (auto simp: add_node_def)



lemma reachable_refl [simp]: "reachable es v v"
  by (simp add: reachable_def)


















section \<open>The body of the cube file\<close>

text \<open>
  Claim C9 at a grid of shape \<open>(1, 2, 6)\<close> whose cell \<open>[x, y, z]\<close> holds \<open>6 y + z\<close>. The
  values are written in row-major order, the last axis varying fastest, but the first
  line of the body has five values, not six: the newline follows the values whose count
  is \<open>5\<close> modulo \<open>6\<close>.
\<close>

theorem write_cubefile_first_line:
  "cube_body \<lparr>shape = (1, 2, 6), cell = (\<lambda>x y z. real (6 * y + z))\<rparr>
     = [Value (0 :: real), Value 1, Value 2, Value 3, Value 4, Newline,
        Value 5, Value 6, Value 7, Value 8, Value 9, Value 10, Newline,
        Value 11, Newline]
   \<and> lines_of (cube_body \<lparr>shape = (1, 2, 6), cell = (\<lambda>x y z. real (6 * y + z))\<rparr>) []
     = [[0, 1, 2, 3, 4], [5, 6, 7, 8, 9, 10], [11]]"
  by code_simp

section \<open>The RMSD metric on point sets of different lengths\<close>

text \<open>
  Claim C6. When the two point sets have different lengths, \<open>rmsd_py\<close> returns no
  number: the product \<open>B.T @ A\<close> in \<open>M_mtx\<close> raises ValueError, which reaches the caller,
  whatever the arithmetic and whatever the library functions compute.
\<close>

theorem rmsd_py_mismatched_lengths:
  "length coords1 \<noteq> length coords2 \<Longrightarrow>
   rmsd_py ar np_mean np_dot lambda_max_eig coords1 coords2 = Inl ValueError"
  by (simp add: rmsd_py_def Let_def matmul_T_def M_mtx_def ebind_def)

theorem rmsd_py_mismatched_lengths_witness:
  "length [(0, 0, 0), (1, 0, 0) :: real vec] \<noteq> length [(0, 0, 0), (1, 0, 0), (2, 0, 0) :: real vec]
   \<and> rmsd_py exact_arithmetic (\<lambda>vs. (0, 0, 0)) (\<lambda>xs ys. sum_list (map2 (*) xs ys))
        (\<lambda>K. Inr 0) [(0, 0, 0), (1, 0, 0)] [(0, 0, 0), (1, 0, 0), (2, 0, 0)]
      = Inl ValueError"
proof -
  have h: "length [(0, 0, 0), (1, 0, 0) :: real vec]
           \<noteq> length [(0, 0, 0), (1, 0, 0), (2, 0, 0) :: real vec]" by simp
  from rmsd_py_mismatched_lengths [OF h] h show ?thesis by blast
qed

section \<open>The normalization of an all-zero grid\<close>

lemma accumulate_excluded:
  "i + length cs \<le> length energies \<Longrightarrow>
   (\<forall>j<length cs. \<not> f64_less (energies ! (i + j)) (Finite 10)) \<Longrightarrow>
   accumulate stamp_atom energies i cs box = Inr box"
proof (induction cs arbitrary: i)
  case Nil
  then show ?case by simp
next
  case (Cons c cs)
  have here: "\<not> f64_less (energies ! i) (Finite 10)"
    using Cons.prems(2) [rule_format, of 0] by simp
  have rest: "\<forall>j<length cs. \<not> f64_less (energies ! (Suc i + j)) (Finite 10)"
    using Cons.prems(2) by (metis Suc_less_eq add_Suc_shift length_Cons)
  have "accumulate stamp_atom energies (Suc i) cs box = Inr box"
    using Cons.IH [of "Suc i"] Cons.prems(1) rest by simp
  then show ?case using Cons.prems(1) here by simp
qed

lemma max_constant:
  "\<not> f64_less c c \<Longrightarrow> \<forall>v\<in>set xs. v = c \<Longrightarrow>
   foldl (\<lambda>m v. if f64_less m v then v else m) c xs = c"
  by (induction xs) simp_all

lemma set_flatten:
  "shape box = (sx, sy, sz) \<Longrightarrow>
   set (flatten box) = {cell box x y z | x y z. x < sx \<and> y < sy \<and> z < sz}"
proof -
  assume s: "shape box = (sx, sy, sz)"
  show ?thesis
  proof (intro set_eqI iffI)
    fix v assume "v \<in> set (flatten box)"
    then show "v \<in> {cell box x y z | x y z. x < sx \<and> y < sy \<and> z < sz}"
      by (force simp: flatten_def s)
  next
    fix v assume "v \<in> {cell box x y z | x y z. x < sx \<and> y < sy \<and> z < sz}"
    then obtain x y z where "v = cell box x y z" "x < sx" "y < sy" "z < sz" by blast
    then show "v \<in> set (flatten box)"
      by (force simp: flatten_def s)
  qed
qed

lemma py_max_zeros:
  assumes "0 < sx" "0 < sy" "0 < sz"
  shows "py_max (flatten (zeros (sx, sy, sz))) = Inr (Finite 0)"
proof -
  let ?xs = "flatten (zeros (sx, sy, sz))"
  have s: "set ?xs = {Finite 0}"
    using assms by (auto simp: set_flatten [of _ sx sy sz] zeros_def)
  then obtain x rest where xs: "?xs = x # rest" by (cases ?xs) auto
  with s have "x = Finite 0" and "\<forall>v\<in>set rest. v = Finite 0" by auto
  then show ?thesis using max_constant [of "Finite 0" rest] by (simp add: py_max_def xs)
qed

text \<open>
  Claim C5, as the code has it. The normalization has no guard. For an ensemble with at
  least one atom and a box with at least one cell, when no conformer has an energy
  below the cutoff, so that the accumulated grid is all zeros, \<open>compute_CoDe\<close> raises
  nothing: it divides zero by zero and returns the box with NaN in every cell.
\<close>

theorem compute_CoDe_zero_grid:
  assumes atoms: "concat atomcoords \<noteq> []"
    and shp: "shape_of (concat atomcoords) = (sx, sy, sz)"
    and cells: "0 < sx" "0 < sy" "0 < sz"
    and len: "length atomcoords \<le> length energies"
    and excluded: "\<forall>i<length atomcoords. \<not> f64_less (energies ! i) (Finite 10)"
  shows "\<exists>box. compute_CoDe rnd shape_of stamp_atom energies atomcoords = Inr box
               \<and> shape box = (sx, sy, sz)
               \<and> (\<forall>x<sx. \<forall>y<sy. \<forall>z<sz. cell box x y z = NaN)"
proof -
  have acc: "accumulate stamp_atom energies 0 atomcoords (zeros (sx, sy, sz))
             = Inr (zeros (sx, sy, sz))"
    using accumulate_excluded [of 0 atomcoords energies] len excluded by simp
  have norm: "normalize_box rnd (zeros (sx, sy, sz))
        = Inr \<lparr>shape = (sx, sy, sz), cell = (\<lambda>x y z. NaN)\<rparr>"
    by (simp add: normalize_box_def py_max_zeros [OF cells] ebind_def) (simp add: zeros_def)
  have "compute_CoDe rnd shape_of stamp_atom energies atomcoords
        = Inr \<lparr>shape = (sx, sy, sz), cell = (\<lambda>x y z. NaN)\<rparr>"
    unfolding compute_CoDe_def Let_def shp using atoms by (simp add: acc norm ebind_def)
  then show ?thesis by simp
qed

theorem compute_CoDe_zero_grid_witness:
  "\<exists>box. compute_CoDe Finite (\<lambda>atoms. (2, 1, 1)) (\<lambda>e atom b. b) [Finite 50, Finite 10]
            ([[(0, 0, 0)], [(1, 0, 0)]] :: real vec list list) = Inr box
         \<and> shape box = (2, 1, 1)
         \<and> (\<forall>x<2. \<forall>y<1. \<forall>z<1. cell box x y z = NaN)"
proof -
  let ?cs = "[[(0, 0, 0)], [(1, 0, 0)]] :: real vec list list"
  let ?en = "[Finite 50, Finite 10]"
  have atoms: "concat ?cs \<noteq> []" by simp
  have shp: "(\<lambda>atoms :: real vec list. (2 :: nat, 1 :: nat, 1 :: nat)) (concat ?cs)
             = (2, 1, 1)" by simp
  have cells: "0 < (2 :: nat)" "0 < (1 :: nat)" "0 < (1 :: nat)" by simp_all
  have len: "length ?cs \<le> length ?en" by simp
  have excluded: "\<forall>i<length ?cs. \<not> f64_less (?en ! i) (Finite 10)"
    by (simp add: less_Suc_eq)
  from compute_CoDe_zero_grid [OF atoms shp cells len excluded, of Finite "\<lambda>e atom b. b"]
  show ?thesis by simp
qed

text \<open>
  One conformer of one atom with the energy 50, in a box of one cell: the accumulated
  grid is all zeros and the call is no error, the cell is NaN.
\<close>

theorem compute_CoDe_no_guard_counterexample:
  "\<not> isl (compute_CoDe Finite (\<lambda>atoms. (1, 1, 1)) (\<lambda>e atom b. b) [Finite 50]
          ([[(0, 0, 0)]] :: real vec list list))
   \<and> cell (projr (compute_CoDe Finite (\<lambda>atoms. (1, 1, 1)) (\<lambda>e atom b. b) [Finite 50]
             ([[(0, 0, 0)]] :: real vec list list))) 0 0 0 = NaN"
  by (simp add: compute_CoDe_def ebind_def normalize_box_def py_max_def flatten_def zeros_def)

end
